theory Spec2Isabelle
  imports Main "HOL-Library.Word"
begin

unbundle bit_operations_syntax

section \<open>Data model of storage/bbolt/dedup.go\<close>

text \<open>
  Go's \<open>byte\<close>, \<open>[]byte\<close> and \<open>uint64\<close>. Arithmetic on \<open>uint64\<close> wraps modulo
  \<open>2 ^ 64\<close> and \<open>\<le>\<close> is the unsigned order, as on \<open>64 word\<close>.
\<close>

type_synonym byte = "8 word"
type_synonym bytes = "byte list"
type_synonym uint64 = "64 word"

text \<open>
  A BBolt bucket maps keys to values; \<open>Bucket.Get\<close> answers \<open>nil\<close> for a key that is
  not there, which is \<open>None\<close> here, and a stored value of length zero is \<open>Some []\<close>,
  different from an absent key. A database maps bucket names to buckets;
  \<open>tx.Bucket(name)\<close> answers \<open>nil\<close> (\<open>None\<close>) for a bucket that does not exist.
  Nested buckets inside the two buckets and failures of the disk are not modelled.
\<close>

type_synonym Bucket = "bytes \<rightharpoonup> bytes"
type_synonym DB = "bytes \<rightharpoonup> Bucket"

text \<open>
  \<open>dedup.SCTDedupInfo{Idx, Timestamp}\<close> and \<open>dedup.LeafDedupInfo\<close>, which embeds it and
  adds \<open>LeafID\<close>; \<open>Storage\<close> holds the database handle.
\<close>

record SCTDedupInfo =
  Idx :: uint64
  Timestamp :: uint64

record LeafDedupInfo = SCTDedupInfo +
  LeafID :: bytes

record Storage =
  db :: DB

text \<open>
  Errors are values. Each constructor is one error of the source or of the two libraries
  it calls (BBolt, encoding/binary), the wrapped error as argument where the message
  prints it. \<open>Panic\<close> is a run-time panic (a method called on a \<open>nil\<close> bucket, a slice
  read out of range): no function of the package recovers from it.
\<close>

datatype error =
    Panic
  | ErrBucketNameRequired
  | ErrBucketExists
  | ErrKeyRequired
  | ErrKeyTooLarge
  | ErrValueTooLarge
  | ErrBufferTooSmall
  | ErrBoltOpen error
  | ErrCreateBucket bytes error
  | ErrReadingLogsize error
  | ErrDedupNilSizeNotNil
  | ErrDedupNotNilSizeNil
  | ErrInitializingBuckets error
  | ErrCantFindLogSize
  | ErrVtob error
  | ErrWritingLeafIndex uint64
  | ErrReadingFrom error
  | ErrEncodeIdx error
  | ErrEncodeTimestamp error
  | ErrBtovLength nat
  | ErrDecodeIdx error
  | ErrDecodeTimestamp error
  | ErrBtov error

text \<open>\<open>fmt.Errorf\<close> around an error value; a panic is not a value and passes through.\<close>

fun wrap :: "(error \<Rightarrow> error) \<Rightarrow> error \<Rightarrow> error" where
  "wrap f Panic = Panic"
| "wrap f err = f err"

text \<open>The conversion \<open>[]byte(s)\<close> of an ASCII string, and the names of the source.\<close>

definition bytes_of_string :: "string \<Rightarrow> bytes" where
  "bytes_of_string s = map of_char s"

definition dedupBucket :: bytes where
  "dedupBucket = bytes_of_string ''leafIdx''"

definition sizeBucket :: bytes where
  "sizeBucket = bytes_of_string ''logSize''"

definition size_key :: bytes where
  "size_key = bytes_of_string ''size''"

section \<open>encoding/binary, as the source uses it\<close>

text \<open>
  \<open>binary.BigEndian.AppendUint64(b, v)\<close> appends
  \<open>byte(v>>56), byte(v>>48), ..., byte(v)\<close>.
\<close>

definition AppendUint64 :: "bytes \<Rightarrow> uint64 \<Rightarrow> bytes" where
  "AppendUint64 b v = b @
     [ucast (drop_bit 56 v), ucast (drop_bit 48 v), ucast (drop_bit 40 v),
      ucast (drop_bit 32 v), ucast (drop_bit 24 v), ucast (drop_bit 16 v),
      ucast (drop_bit 8 v), ucast v]"

text \<open>
  \<open>binary.BigEndian.Uint64(b)\<close> is
  \<open>uint64(b[7]) | uint64(b[6])<<8 | ... | uint64(b[0])<<56\<close>; it panics when \<open>b\<close> has
  fewer than 8 bytes and ignores the bytes after the eighth.
\<close>

definition Uint64_of :: "bytes \<Rightarrow> uint64" where
  "Uint64_of b =
     ucast (b ! 7) OR push_bit 8 (ucast (b ! 6)) OR push_bit 16 (ucast (b ! 5)) OR
     push_bit 24 (ucast (b ! 4)) OR push_bit 32 (ucast (b ! 3)) OR
     push_bit 40 (ucast (b ! 2)) OR push_bit 48 (ucast (b ! 1)) OR
     push_bit 56 (ucast (b ! 0))"

definition Uint64 :: "bytes \<Rightarrow> error + uint64" where
  "Uint64 b = (if length b < 8 then Inl Panic else Inr (Uint64_of b))"

text \<open>
  \<open>binary.Append(buf, binary.BigEndian, data)\<close> for a \<open>uint64\<close>: the fixed-size path,
  which appends the 8 bytes and has no error. \<open>binary.Decode(buf, binary.BigEndian, &x)\<close>
  for a \<open>uint64\<close>: the buffer must hold 8 bytes; it answers the bytes consumed and the
  value.
\<close>

definition binary_Append :: "bytes \<Rightarrow> uint64 \<Rightarrow> error + bytes" where
  "binary_Append buf data = Inr (AppendUint64 buf data)"

definition binary_Decode :: "bytes \<Rightarrow> error + nat \<times> uint64" where
  "binary_Decode buf =
     (if length buf < 8 then Inl ErrBufferTooSmall else Inr (8, Uint64_of buf))"

text \<open>The builtin \<open>copy(dst, src)\<close>: the first \<open>min (len dst) (len src)\<close> bytes of \<open>dst\<close>
  are replaced; \<open>make([]byte, n)\<close> is \<open>n\<close> zero bytes.\<close>

definition copy :: "bytes \<Rightarrow> bytes \<Rightarrow> bytes" where
  "copy dst src = take (length dst) src @ drop (length src) dst"

definition make_bytes :: "nat \<Rightarrow> bytes" where
  "make_bytes n = replicate n 0"

section \<open>BBolt, as the source uses it\<close>

text \<open>
  \<open>db.Update(fn)\<close> runs \<open>fn\<close> in a read-write transaction: when \<open>fn\<close> returns an error
  or panics the transaction is rolled back and the database is what it was, otherwise
  the writes are committed (the commit itself is taken to succeed).
  \<open>db.View(fn)\<close> runs \<open>fn\<close> read-only.
\<close>

definition Update :: "DB \<Rightarrow> (DB \<Rightarrow> error + DB) \<Rightarrow> DB \<times> error option" where
  "Update d fn = (case fn d of Inl err \<Rightarrow> (d, Some err) | Inr d' \<Rightarrow> (d', None))"

definition View :: "DB \<Rightarrow> (DB \<Rightarrow> error + 'a) \<Rightarrow> error + 'a" where
  "View d fn = fn d"

text \<open>\<open>tx.CreateBucket(name)\<close>.\<close>

definition CreateBucket :: "DB \<Rightarrow> bytes \<Rightarrow> error + DB" where
  "CreateBucket tx name =
     (if name = [] then Inl ErrBucketNameRequired
      else if tx name \<noteq> None then Inl ErrBucketExists
      else Inr (tx(name \<mapsto> Map.empty)))"

text \<open>
  \<open>b.Get(key)\<close> on the bucket \<open>b = tx.Bucket(name)\<close>; a \<open>nil\<close> bucket is dereferenced,
  which panics.
\<close>

definition Bucket_Get :: "Bucket option \<Rightarrow> bytes \<Rightarrow> error + bytes option" where
  "Bucket_Get b key = (case b of None \<Rightarrow> Inl Panic | Some m \<Rightarrow> Inr (m key))"

text \<open>
  \<open>b.Put(key, value)\<close> on the bucket \<open>b = tx.Bucket(name)\<close> of the transaction \<open>tx\<close>.
  BBolt refuses an empty key, a key longer than \<open>MaxKeySize\<close> and a value longer than
  \<open>MaxValueSize\<close>; otherwise the value is stored under the key, replacing an older one.
\<close>

definition MaxKeySize :: nat where
  "MaxKeySize = 32768"

definition MaxValueSize :: nat where
  "MaxValueSize = 2 ^ 31 - 2"

definition Bucket_Put :: "DB \<Rightarrow> bytes \<Rightarrow> bytes \<Rightarrow> bytes \<Rightarrow> error + DB" where
  "Bucket_Put tx name key val =
     (case tx name of
        None \<Rightarrow> Inl Panic
      | Some m \<Rightarrow>
          if key = [] then Inl ErrKeyRequired
          else if MaxKeySize < length key then Inl ErrKeyTooLarge
          else if MaxValueSize < length val then Inl ErrValueTooLarge
          else Inr (tx(name \<mapsto> m(key \<mapsto> val))))"

section \<open>The codec of dedup.go\<close>

definition itob :: "uint64 \<Rightarrow> bytes" where
  "itob idx = AppendUint64 [] idx"

definition btoi :: "bytes \<Rightarrow> error + uint64" where
  "btoi b = Uint64 b"

definition vtob :: "uint64 \<Rightarrow> uint64 \<Rightarrow> error + bytes" where
  "vtob idx timestamp =
     (case binary_Append (make_bytes 0) idx of
        Inl err \<Rightarrow> Inl (wrap ErrEncodeIdx err)
      | Inr b \<Rightarrow>
          (case binary_Append b timestamp of
             Inl err \<Rightarrow> Inl (wrap ErrEncodeTimestamp err)
           | Inr b' \<Rightarrow> Inr b'))"

definition btov :: "bytes \<Rightarrow> error + uint64 \<times> uint64" where
  "btov b =
     (if length b \<noteq> 16 then Inl (ErrBtovLength (length b))
      else
        (case binary_Decode b of
           Inl err \<Rightarrow> Inl (wrap ErrDecodeIdx err)
         | Inr (n, idx) \<Rightarrow>
             (case binary_Decode (drop n b) of
                Inl err \<Rightarrow> Inl (wrap ErrDecodeTimestamp err)
              | Inr (_, timestamp) \<Rightarrow> Inr (idx, timestamp))))"

section \<open>NewStorage, Add, Get, LogSize\<close>

text \<open>
  The function \<open>NewStorage\<close> passes to \<open>db.Update\<close>. Its argument is the
  transaction's view of the database.
\<close>

definition NewStorage_tx :: "DB \<Rightarrow> error + DB" where
  "NewStorage_tx tx =
     (let dedupB = tx dedupBucket; sizeB = tx sizeBucket in
      if dedupB = None \<and> sizeB = None then
        (case CreateBucket tx dedupBucket of
           Inl err \<Rightarrow> Inl (wrap (ErrCreateBucket dedupBucket) err)
         | Inr tx1 \<Rightarrow>
             (case CreateBucket tx1 sizeBucket of
                Inl err \<Rightarrow> Inl (wrap (ErrCreateBucket sizeBucket) err)
              | Inr tx2 \<Rightarrow>
                  (case Bucket_Put tx2 sizeBucket size_key (itob 0) of
                     Inl err \<Rightarrow> Inl (wrap ErrReadingLogsize err)
                   | Inr tx3 \<Rightarrow> Inr tx3)))
      else if dedupB = None \<and> sizeB \<noteq> None then Inl ErrDedupNilSizeNotNil
      else if dedupB \<noteq> None \<and> sizeB = None then Inl ErrDedupNotNilSizeNil
      else Inr tx)"

text \<open>
  \<open>NewStorage(path)\<close>. The argument is what \<open>bolt.Open(path, 0600, nil)\<close> answers: an
  error, or the database found at the path (with no bucket when the file is new).
\<close>

definition NewStorage :: "error + DB \<Rightarrow> error + Storage" where
  "NewStorage bolt_Open =
     (case bolt_Open of
        Inl err \<Rightarrow> Inl (wrap ErrBoltOpen err)
      | Inr d \<Rightarrow>
          (case Update d NewStorage_tx of
             (d', Some err) \<Rightarrow> Inl (wrap ErrInitializingBuckets err)
           | (d', None) \<Rightarrow> Inr \<lparr>db = d'\<rparr>))"

text \<open>
  The transaction of \<open>Add\<close> for one record. The test
  \<open>len(old) == 16 && btoi(old[:8]) <= ldi.Idx\<close> is \<open>keeps_old\<close>; \<open>len(nil)\<close> is 0.
\<close>

definition keeps_old :: "bytes option \<Rightarrow> uint64 \<Rightarrow> error + bool" where
  "keeps_old old idx =
     (case old of
        None \<Rightarrow> Inr False
      | Some ov \<Rightarrow>
          if length ov = 16 then
            (case btoi (take 8 ov) of Inl err \<Rightarrow> Inl err | Inr i \<Rightarrow> Inr (i \<le> idx))
          else Inr False)"

definition Add_tx :: "LeafDedupInfo \<Rightarrow> DB \<Rightarrow> error + DB" where
  "Add_tx ldi tx =
     (case Bucket_Get (tx sizeBucket) size_key of
        Inl err \<Rightarrow> Inl err
      | Inr None \<Rightarrow> Inl ErrCantFindLogSize
      | Inr (Some sizeB) \<Rightarrow>
     (case btoi sizeB of
        Inl err \<Rightarrow> Inl err
      | Inr sz \<Rightarrow>
     (case vtob (Idx ldi) (Timestamp ldi) of
        Inl err \<Rightarrow> Inl (wrap ErrVtob err)
      | Inr vB \<Rightarrow>
     (case Bucket_Get (tx dedupBucket) (LeafID ldi) of
        Inl err \<Rightarrow> Inl err
      | Inr old \<Rightarrow>
     (case keeps_old old (Idx ldi) of
        Inl err \<Rightarrow> Inl err
      | Inr keep \<Rightarrow>
     (case (if keep then Inr tx else Bucket_Put tx dedupBucket (LeafID ldi) vB) of
        Inl err \<Rightarrow> Inl err
      | Inr tx1 \<Rightarrow>
          if sz = Idx ldi then Bucket_Put tx1 sizeBucket size_key (itob (sz + 1))
          else Inr tx1))))))"

text \<open>
  \<open>Add\<close>: one transaction per record, in order, stopping at the first that fails. The
  result is the store after the call and the error returned, if any.
\<close>

fun Add :: "Storage \<Rightarrow> LeafDedupInfo list \<Rightarrow> Storage \<times> error option" where
  "Add s [] = (s, None)"
| "Add s (ldi # ldis) =
     (case Update (db s) (Add_tx ldi) of
        (d, Some err) \<Rightarrow> (s\<lparr>db := d\<rparr>, Some (wrap (\<lambda>_. ErrWritingLeafIndex (Idx ldi)) err))
      | (d, None) \<Rightarrow> Add (s\<lparr>db := d\<rparr>) ldis)"

text \<open>A sequence of calls of \<open>Add\<close>, each with its batch, stopping at the first error.\<close>

fun Add_calls :: "Storage \<Rightarrow> LeafDedupInfo list list \<Rightarrow> Storage \<times> error option" where
  "Add_calls s [] = (s, None)"
| "Add_calls s (ldis # rest) =
     (case Add s ldis of
        (s', Some err) \<Rightarrow> (s', Some err)
      | (s', None) \<Rightarrow> Add_calls s' rest)"

text \<open>
  \<open>Get\<close> answers \<open>Inr (info, found)\<close> when the error is \<open>nil\<close>; with an error \<open>Inl err\<close>
  the source returns the zero record and \<open>false\<close> beside it.
\<close>

definition Get :: "Storage \<Rightarrow> bytes \<Rightarrow> error + SCTDedupInfo \<times> bool" where
  "Get s leafID =
     (case View (db s) (\<lambda>tx.
             case Bucket_Get (tx dedupBucket) leafID of
               Inl err \<Rightarrow> Inl err
             | Inr None \<Rightarrow> Inr None
             | Inr (Some vv) \<Rightarrow> Inr (Some (copy (make_bytes (length vv)) vv))) of
        Inl err \<Rightarrow> Inl err
      | Inr None \<Rightarrow> Inr (\<lparr>Idx = 0, Timestamp = 0\<rparr>, False)
      | Inr (Some v) \<Rightarrow>
          (case btov v of
             Inl err \<Rightarrow> Inl (wrap ErrBtov err)
           | Inr (idx, t) \<Rightarrow> Inr (\<lparr>Idx = idx, Timestamp = t\<rparr>, True)))"

definition LogSize :: "Storage \<Rightarrow> error + uint64" where
  "LogSize s =
     (case View (db s) (\<lambda>tx.
             case Bucket_Get (tx sizeBucket) size_key of
               Inl err \<Rightarrow> Inl err
             | Inr None \<Rightarrow> Inr None
             | Inr (Some v) \<Rightarrow> Inr (Some (copy (make_bytes 8) v))) of
        Inl err \<Rightarrow> Inl (wrap ErrReadingFrom err)
      | Inr None \<Rightarrow> Inl ErrCantFindLogSize
      | Inr (Some sz) \<Rightarrow> btoi sz)"

section \<open>Notions used in the statements and proofs\<close>

text \<open>
  The tie-break test as a predicate: the stored value has 16 bytes and its index, the
  first 8 of them, is at most the new index. \<open>keeps_old\<close> computes it.
\<close>

definition old_wins :: "bytes option \<Rightarrow> uint64 \<Rightarrow> bool" where
  "old_wins old idx = (case old of None \<Rightarrow> False | Some ov \<Rightarrow> length ov = 16 \<and> Uint64_of ov \<le> idx)"

text \<open>
  A store with both buckets: the dedup bucket holds the listed entries (an earlier pair
  of the list hides a later one with the same key) and the counter is \<open>n\<close>.
\<close>

definition store_of :: "(bytes \<times> bytes) list \<Rightarrow> uint64 \<Rightarrow> Storage" where
  "store_of entries n = \<lparr>db = [dedupBucket \<mapsto> map_of entries, sizeBucket \<mapsto> [size_key \<mapsto> itob n]]\<rparr>"

text \<open>
  The pair (index, timestamp) a key ends with when it starts with the pair \<open>p\<close> and the
  records of the list are added in order: a record replaces the pair only with a
  strictly smaller index. \<open>enc\<close> is the stored value of a pair.
\<close>

fun best :: "uint64 \<times> uint64 \<Rightarrow> LeafDedupInfo list \<Rightarrow> uint64 \<times> uint64" where
  "best p [] = p"
| "best p (l # ls) = best (if fst p \<le> Idx l then p else (Idx l, Timestamp l)) ls"

definition enc :: "uint64 \<times> uint64 \<Rightarrow> bytes" where
  "enc p = itob (fst p) @ itob (snd p)"

section \<open>Properties of the codec\<close>

lemma low_byte_or_rest: "take_bit 8 w OR push_bit 8 (drop_bit 8 w) = (w :: uint64)"
proof (rule bit_word_eqI)
  fix n
  show "bit (take_bit 8 w OR push_bit 8 (drop_bit 8 w)) n = bit w n"
    by (cases "n < 8") (auto simp: bit_simps not_less dest: bit_imp_le_length)
qed

lemma byte_of_uint64: "(ucast (ucast (w :: uint64) :: byte) :: uint64) = take_bit 8 w"
  by (rule bit_word_eqI) (auto simp: bit_simps)

lemma top_byte: "take_bit 8 (drop_bit 56 w) = drop_bit 56 (w :: uint64)"
  by (rule bit_word_eqI) (auto simp: bit_simps dest: bit_imp_le_length)

lemma Uint64_of_AppendUint64: "Uint64_of (AppendUint64 [] v @ r) = v"
proof -
  have step: "\<And>k. take_bit 8 (drop_bit k v) OR push_bit 8 (drop_bit (8 + k) v) = drop_bit k v"
    using low_byte_or_rest [of "drop_bit k v" for k] by simp
  have "v = take_bit 8 v OR push_bit 8 (drop_bit 8 v)"
    by (simp add: low_byte_or_rest)
  also have "drop_bit 8 v = take_bit 8 (drop_bit 8 v) OR push_bit 8 (drop_bit 16 v)"
    using step [of 8] by simp
  also have "drop_bit 16 v = take_bit 8 (drop_bit 16 v) OR push_bit 8 (drop_bit 24 v)"
    using step [of 16] by simp
  also have "drop_bit 24 v = take_bit 8 (drop_bit 24 v) OR push_bit 8 (drop_bit 32 v)"
    using step [of 24] by simp
  also have "drop_bit 32 v = take_bit 8 (drop_bit 32 v) OR push_bit 8 (drop_bit 40 v)"
    using step [of 32] by simp
  also have "drop_bit 40 v = take_bit 8 (drop_bit 40 v) OR push_bit 8 (drop_bit 48 v)"
    using step [of 40] by simp
  also have "drop_bit 48 v = take_bit 8 (drop_bit 48 v) OR push_bit 8 (drop_bit 56 v)"
    using step [of 48] by simp
  also have "drop_bit 56 v = take_bit 8 (drop_bit 56 v)"
    by (simp add: top_byte)
  finally have "v = take_bit 8 v OR push_bit 8 (take_bit 8 (drop_bit 8 v)) OR
      push_bit 16 (take_bit 8 (drop_bit 16 v)) OR push_bit 24 (take_bit 8 (drop_bit 24 v)) OR
      push_bit 32 (take_bit 8 (drop_bit 32 v)) OR push_bit 40 (take_bit 8 (drop_bit 40 v)) OR
      push_bit 48 (take_bit 8 (drop_bit 48 v)) OR push_bit 56 (take_bit 8 (drop_bit 56 v))"
    by (simp add: or.assoc)
  then show ?thesis
    by (simp add: Uint64_of_def AppendUint64_def byte_of_uint64 or.assoc or.left_commute
        or.commute [of "take_bit 8 v"])
qed

lemma length_AppendUint64: "length (AppendUint64 b v) = length b + 8"
  by (simp add: AppendUint64_def)

lemma AppendUint64_append: "AppendUint64 b v = b @ AppendUint64 [] v"
  by (simp add: AppendUint64_def)

lemma length_itob: "length (itob v) = 8"
  by (simp add: itob_def length_AppendUint64)

lemma btoi_itob: "btoi (itob v) = Inr v"
  using Uint64_of_AppendUint64 [of v "[]"]
  by (simp add: btoi_def Uint64_def itob_def length_AppendUint64)

lemma vtob_eq: "vtob idx ts = Inr (itob idx @ itob ts)"
  by (simp add: vtob_def binary_Append_def make_bytes_def itob_def AppendUint64_append [of "AppendUint64 [] idx"])

lemma btov_itob: "btov (itob idx @ itob ts) = Inr (idx, ts)"
  using Uint64_of_AppendUint64 [of idx "itob ts"] Uint64_of_AppendUint64 [of ts "[]"]
  by (simp add: btov_def binary_Decode_def length_itob) (simp add: itob_def)

text \<open>
  C6. The value codec round-trips: for all \<open>uint64\<close> values \<open>idx\<close> and \<open>ts\<close> (0 and
  \<open>2 ^ 64 - 1\<close> among them), \<open>vtob\<close> returns without error the 16 bytes made of the
  big-endian 8 bytes of \<open>idx\<close> followed by the big-endian 8 bytes of \<open>ts\<close>, and \<open>btov\<close>
  decodes them to exactly \<open>(idx, ts)\<close>.
\<close>

theorem vtob_btov_roundtrip:
  "\<exists>b. vtob idx ts = Inr b \<and> length b = 16 \<and>
       b = AppendUint64 [] idx @ AppendUint64 [] ts \<and> btov b = Inr (idx, ts)"
  using btov_itob [of idx ts]
  by (simp add: vtob_eq length_itob) (simp add: itob_def)

section \<open>Facts about the names, the builtins and the stored counter\<close>

lemma bucket_names [simp]:
  "dedupBucket \<noteq> sizeBucket" "sizeBucket \<noteq> dedupBucket"
  "dedupBucket \<noteq> []" "sizeBucket \<noteq> []" "size_key \<noteq> []"
  "\<not> MaxKeySize < length size_key"
  by (simp_all add: dedupBucket_def sizeBucket_def size_key_def bytes_of_string_def MaxKeySize_def)

lemma length_itob_MaxValueSize [simp]: "\<not> MaxValueSize < length (itob v)"
  by (simp add: length_itob MaxValueSize_def)

lemma copy_make_same [simp]: "length v = n \<Longrightarrow> copy (make_bytes n) v = v"
  by (auto simp: copy_def make_bytes_def)

lemma Uint64_of_take8: "8 \<le> length b \<Longrightarrow> Uint64_of (take 8 b) = Uint64_of b"
  by (simp add: Uint64_of_def)

lemma btoi_copy8: "8 \<le> length b \<Longrightarrow> btoi (copy (make_bytes 8) b) = btoi b"
  by (simp add: btoi_def Uint64_def copy_def make_bytes_def Uint64_of_take8)

lemma btoi_copy8_itob [simp]: "btoi (copy (make_bytes 8) (itob n)) = Inr n"
  by (simp add: btoi_copy8 length_itob btoi_itob)

section \<open>Opening a store\<close>

text \<open>
  C5. \<open>NewStorage\<close> splits three ways on the buckets found in the opened database \<open>d\<close>.
  With neither bucket, both are created, the counter is stored as 0, and \<open>LogSize\<close> on
  the new store returns 0. With both buckets, the store is the database as found. With
  exactly one of the two (either one), \<open>NewStorage\<close> returns no store but the
  inconsistency error.
\<close>

theorem NewStorage_cases:
  "(d dedupBucket = None \<and> d sizeBucket = None \<longrightarrow>
      NewStorage (Inr d) =
        Inr \<lparr>db = d(dedupBucket \<mapsto> Map.empty, sizeBucket \<mapsto> [size_key \<mapsto> itob 0])\<rparr> \<and>
      LogSize \<lparr>db = d(dedupBucket \<mapsto> Map.empty, sizeBucket \<mapsto> [size_key \<mapsto> itob 0])\<rparr> = Inr 0) \<and>
   (d dedupBucket \<noteq> None \<and> d sizeBucket \<noteq> None \<longrightarrow> NewStorage (Inr d) = Inr \<lparr>db = d\<rparr>) \<and>
   (d dedupBucket = None \<and> d sizeBucket \<noteq> None \<longrightarrow>
      NewStorage (Inr d) = Inl (ErrInitializingBuckets ErrDedupNilSizeNotNil)) \<and>
   (d dedupBucket \<noteq> None \<and> d sizeBucket = None \<longrightarrow>
      NewStorage (Inr d) = Inl (ErrInitializingBuckets ErrDedupNotNilSizeNil))"
  by (auto simp: NewStorage_def Update_def NewStorage_tx_def CreateBucket_def Bucket_Put_def
      LogSize_def View_def Bucket_Get_def)

theorem NewStorage_cases_witness:
  "NewStorage (Inr Map.empty) =
     Inr \<lparr>db = [dedupBucket \<mapsto> Map.empty, sizeBucket \<mapsto> [size_key \<mapsto> itob 0]]\<rparr> \<and>
   LogSize \<lparr>db = [dedupBucket \<mapsto> Map.empty, sizeBucket \<mapsto> [size_key \<mapsto> itob 0]]\<rparr> = Inr 0 \<and>
   NewStorage (Inr [dedupBucket \<mapsto> [[1] \<mapsto> itob 0 @ itob 7], sizeBucket \<mapsto> [size_key \<mapsto> itob 1]]) =
     Inr \<lparr>db = [dedupBucket \<mapsto> [[1] \<mapsto> itob 0 @ itob 7], sizeBucket \<mapsto> [size_key \<mapsto> itob 1]]\<rparr> \<and>
   NewStorage (Inr [sizeBucket \<mapsto> [size_key \<mapsto> itob 1]]) =
     Inl (ErrInitializingBuckets ErrDedupNilSizeNotNil) \<and>
   NewStorage (Inr [dedupBucket \<mapsto> [[1] \<mapsto> itob 0 @ itob 7]]) =
     Inl (ErrInitializingBuckets ErrDedupNotNilSizeNil)"
  using NewStorage_cases [of Map.empty]
    NewStorage_cases [of "[dedupBucket \<mapsto> [[1] \<mapsto> itob 0 @ itob 7], sizeBucket \<mapsto> [size_key \<mapsto> itob 1]]"]
    NewStorage_cases [of "[sizeBucket \<mapsto> [size_key \<mapsto> itob 1]]"]
    NewStorage_cases [of "[dedupBucket \<mapsto> [[1] \<mapsto> itob 0 @ itob 7]]"]
  by simp

section \<open>Errors of the decoder and of a missing counter\<close>

text \<open>
  C7. For every byte string \<open>b\<close> whose length is not 16, \<open>btov b\<close> is the decode error
  carrying that length: not a panic, and no value decoded from fewer or more bytes. When
  such a \<open>b\<close> is the value stored under a present key, \<open>Get\<close> of that key returns this
  error, wrapped.
\<close>

theorem btov_rejects_wrong_length:
  assumes "length b \<noteq> 16"
  shows "btov b = Inl (ErrBtovLength (length b)) \<and>
    (db s dedupBucket = Some m \<and> m leafID = Some b \<longrightarrow>
       Get s leafID = Inl (ErrBtov (ErrBtovLength (length b))))"
  using assms by (simp add: btov_def Get_def View_def Bucket_Get_def)

theorem btov_rejects_wrong_length_witness:
  "btov (replicate 15 7) = Inl (ErrBtovLength 15) \<and>
   btov (replicate 17 7) = Inl (ErrBtovLength 17) \<and>
   btov [] = Inl (ErrBtovLength 0) \<and>
   Get \<lparr>db = [dedupBucket \<mapsto> [[1] \<mapsto> replicate 15 7], sizeBucket \<mapsto> [size_key \<mapsto> itob 1]]\<rparr> [1] =
     Inl (ErrBtov (ErrBtovLength 15)) \<and>
   Get \<lparr>db = [dedupBucket \<mapsto> [[1] \<mapsto> replicate 17 7], sizeBucket \<mapsto> [size_key \<mapsto> itob 1]]\<rparr> [1] =
     Inl (ErrBtov (ErrBtovLength 17))"
  using btov_rejects_wrong_length [of "replicate 15 7"
      "\<lparr>db = [dedupBucket \<mapsto> [[1] \<mapsto> replicate 15 7], sizeBucket \<mapsto> [size_key \<mapsto> itob 1]]\<rparr>"
      "[[1] \<mapsto> replicate 15 7]" "[1]"]
    btov_rejects_wrong_length [of "replicate 17 7"
      "\<lparr>db = [dedupBucket \<mapsto> [[1] \<mapsto> replicate 17 7], sizeBucket \<mapsto> [size_key \<mapsto> itob 1]]\<rparr>"
      "[[1] \<mapsto> replicate 17 7]" "[1]"]
    btov_rejects_wrong_length [of "[]"]
  by simp

text \<open>
  C9. On a store whose size bucket exists but holds no \<open>size\<close> key, \<open>LogSize\<close> returns
  the error that the log size cannot be found, and \<open>Add\<close> of any batch with at least one
  record returns an error at its first record and leaves the store as it was; the
  counter is not taken to be 0.
\<close>

theorem missing_size_key_is_error:
  assumes "db s sizeBucket = Some sm" and "sm size_key = None"
  shows "LogSize s = Inl ErrCantFindLogSize \<and>
    Add s (ldi # ldis) = (s, Some (ErrWritingLeafIndex (Idx ldi)))"
  using assms by (simp add: LogSize_def View_def Bucket_Get_def Add_tx_def Update_def)

theorem missing_size_key_is_error_witness:
  "LogSize \<lparr>db = [dedupBucket \<mapsto> Map.empty, sizeBucket \<mapsto> Map.empty]\<rparr> = Inl ErrCantFindLogSize \<and>
   Add \<lparr>db = [dedupBucket \<mapsto> Map.empty, sizeBucket \<mapsto> Map.empty]\<rparr>
     [\<lparr>Idx = 0, Timestamp = 5, LeafID = [1]\<rparr>, \<lparr>Idx = 1, Timestamp = 6, LeafID = [2]\<rparr>] =
     (\<lparr>db = [dedupBucket \<mapsto> Map.empty, sizeBucket \<mapsto> Map.empty]\<rparr>, Some (ErrWritingLeafIndex 0))"
  using missing_size_key_is_error [of "\<lparr>db = [dedupBucket \<mapsto> Map.empty, sizeBucket \<mapsto> Map.empty]\<rparr>" Map.empty
      "\<lparr>Idx = 0, Timestamp = 5, LeafID = [1]\<rparr>" "[\<lparr>Idx = 1, Timestamp = 6, LeafID = [2]\<rparr>]"]
  by simp

section \<open>The transaction of Add\<close>

lemma keeps_old_eq: "keeps_old old idx = Inr (old_wins old idx)"
  by (auto simp: keeps_old_def old_wins_def btoi_def Uint64_def Uint64_of_take8 split: option.splits)

lemma Add_tx_ready:
  assumes "d dedupBucket = Some dm" and "d sizeBucket = Some sm"
    and "sm size_key = Some sizeB" and "8 \<le> length sizeB"
  shows "Add_tx ldi d =
     (if old_wins (dm (LeafID ldi)) (Idx ldi) then
        Inr (if Uint64_of sizeB = Idx ldi
             then d(sizeBucket \<mapsto> sm(size_key \<mapsto> itob (Uint64_of sizeB + 1))) else d)
      else if LeafID ldi = [] then Inl ErrKeyRequired
      else if MaxKeySize < length (LeafID ldi) then Inl ErrKeyTooLarge
      else Inr (if Uint64_of sizeB = Idx ldi
          then d(dedupBucket \<mapsto> dm(LeafID ldi \<mapsto> itob (Idx ldi) @ itob (Timestamp ldi)),
                 sizeBucket \<mapsto> sm(size_key \<mapsto> itob (Uint64_of sizeB + 1)))
          else d(dedupBucket \<mapsto> dm(LeafID ldi \<mapsto> itob (Idx ldi) @ itob (Timestamp ldi)))))"
  using assms
  by (simp add: Add_tx_def Bucket_Get_def btoi_def Uint64_def vtob_eq keeps_old_eq Bucket_Put_def
      length_itob MaxValueSize_def)

lemma Add_tx_Inr_ready:
  assumes "Add_tx ldi d = Inr d'"
  shows "\<exists>dm sm sizeB. d dedupBucket = Some dm \<and> d sizeBucket = Some sm \<and>
     sm size_key = Some sizeB \<and> 8 \<le> length sizeB"
  using assms
  by (auto simp: Add_tx_def Bucket_Get_def btoi_def Uint64_def 
      split: option.splits sum.splits if_splits)

text \<open>
  \<open>Add\<close> returns no error on a store that has both buckets and a counter of at least
  8 bytes, when every record's key is one BBolt accepts.
\<close>

lemma Add_tx_succeeds:
  assumes "d dedupBucket = Some dm" and "d sizeBucket = Some sm"
    and "sm size_key = Some sizeB" and "8 \<le> length sizeB"
    and "LeafID ldi \<noteq> []" and "length (LeafID ldi) \<le> MaxKeySize"
  shows "\<exists>d1 dm1 sm1 sizeB1. Add_tx ldi d = Inr d1 \<and> d1 dedupBucket = Some dm1 \<and>
     d1 sizeBucket = Some sm1 \<and> sm1 size_key = Some sizeB1 \<and> 8 \<le> length sizeB1"
proof -
  have k: "\<not> MaxKeySize < length (LeafID ldi)" using assms(6) by simp
  show ?thesis
    unfolding Add_tx_ready [OF assms(1-4)]
    using assms(1-5) k
    by (cases "old_wins (dm (LeafID ldi)) (Idx ldi)"; cases "Uint64_of sizeB = Idx ldi")
      (simp_all add: length_itob)
qed

lemma Add_succeeds:
  assumes "db s dedupBucket = Some dm" and "db s sizeBucket = Some sm"
    and "sm size_key = Some sizeB" and "8 \<le> length sizeB"
    and "list_all (\<lambda>ldi. LeafID ldi \<noteq> [] \<and> length (LeafID ldi) \<le> MaxKeySize) ldis"
  shows "\<exists>s'. Add s ldis = (s', None)"
  using assms
proof (induction ldis arbitrary: s dm sm sizeB)
  case Nil
  then show ?case by simp
next
  case (Cons ldi ldis)
  from Cons.prems(5) have k: "LeafID ldi \<noteq> []" "length (LeafID ldi) \<le> MaxKeySize"
    and rest: "list_all (\<lambda>ldi. LeafID ldi \<noteq> [] \<and> length (LeafID ldi) \<le> MaxKeySize) ldis"
    by auto
  from Add_tx_succeeds [OF Cons.prems(1-4) k] obtain d1 dm1 sm1 sizeB1 where
    d1: "Add_tx ldi (db s) = Inr d1" "d1 dedupBucket = Some dm1" "d1 sizeBucket = Some sm1"
      "sm1 size_key = Some sizeB1" "8 \<le> length sizeB1"
    by blast
  from Cons.IH [of "s\<lparr>db := d1\<rparr>" dm1 sm1 sizeB1] d1 rest
  obtain s' where "Add (s\<lparr>db := d1\<rparr>) ldis = (s', None)" by auto
  with d1(1) show ?case by (simp add: Update_def)
qed

lemma Add_append:
  "Add s (xs @ ys) = (case Add s xs of (s1, Some err) \<Rightarrow> (s1, Some err) | (s1, None) \<Rightarrow> Add s1 ys)"
  by (induction xs arbitrary: s) (auto split: prod.splits option.splits)

lemma Add_calls_concat: "Add_calls s calls = Add s (concat calls)"
  by (induction calls arbitrary: s) (auto simp: Add_append split: prod.splits option.splits)

lemma Add_tx_dedup_other:
  assumes "Add_tx ldi d = Inr d'" and "LeafID ldi \<noteq> k" and "d dedupBucket = Some dm"
  shows "\<exists>dm'. d' dedupBucket = Some dm' \<and> dm' k = dm k"
proof -
  from Add_tx_Inr_ready [OF assms(1)] assms(3) obtain sm sizeB where
    r: "d sizeBucket = Some sm" "sm size_key = Some sizeB" "8 \<le> length sizeB"
    by auto
  show ?thesis
    using assms unfolding Add_tx_ready [OF assms(3) r]
    by (auto split: if_splits)
qed

lemma Add_dedup_other:
  assumes "Add s ldis = (s', e)" and "k \<notin> LeafID ` set ldis" and "db s dedupBucket = Some dm"
  shows "\<exists>dm'. db s' dedupBucket = Some dm' \<and> dm' k = dm k"
  using assms
proof (induction ldis arbitrary: s dm)
  case Nil
  then show ?case by simp
next
  case (Cons ldi ldis)
  show ?case
  proof (cases "Add_tx ldi (db s)")
    case (Inl err)
    with Cons.prems show ?thesis by (simp add: Update_def)
  next
    case (Inr d')
    from Cons.prems(2) have k: "LeafID ldi \<noteq> k" "k \<notin> LeafID ` set ldis" by auto
    from Add_tx_dedup_other [OF Inr k(1) Cons.prems(3)] obtain dm1 where
      dm1: "d' dedupBucket = Some dm1" "dm1 k = dm k" by blast
    from Cons.prems(1) Inr have "Add (s\<lparr>db := d'\<rparr>) ldis = (s', e)"
      by (simp add: Update_def)
    from Cons.IH [OF this k(2), of dm1] dm1 show ?thesis by simp
  qed
qed

text \<open>
  C8. A key \<open>k\<close> that the dedup bucket does not hold, and that no record of any later
  call of \<open>Add\<close> carries as its \<open>LeafID\<close>, is still not found afterwards, whether the
  calls succeeded or stopped at an error: \<open>Get\<close> returns the zero record, \<open>found\<close>
  false and no error.
\<close>

theorem Get_never_added:
  assumes "db s dedupBucket = Some dm" and "dm k = None"
    and "k \<notin> LeafID ` set (concat calls)"
    and "Add_calls s calls = (s', e)"
  shows "Get s' k = Inr (\<lparr>Idx = 0, Timestamp = 0\<rparr>, False)"
proof -
  from assms(4) have "Add s (concat calls) = (s', e)" by (simp add: Add_calls_concat)
  from Add_dedup_other [OF this assms(3) assms(1)] assms(2)
  show ?thesis by (auto simp: Get_def View_def Bucket_Get_def)
qed

theorem Get_never_added_witness:
  "[3] \<notin> LeafID ` set (concat [[\<lparr>Idx = 0, Timestamp = 5, LeafID = [1]\<rparr>], [\<lparr>Idx = 1, Timestamp = 6, LeafID = [2]\<rparr>]]) \<and>
   Get (fst (Add_calls \<lparr>db = [dedupBucket \<mapsto> Map.empty, sizeBucket \<mapsto> [size_key \<mapsto> itob 0]]\<rparr>
       [[\<lparr>Idx = 0, Timestamp = 5, LeafID = [1]\<rparr>], [\<lparr>Idx = 1, Timestamp = 6, LeafID = [2]\<rparr>]])) [3] =
     Inr (\<lparr>Idx = 0, Timestamp = 0\<rparr>, False)"
  using Get_never_added [of "\<lparr>db = [dedupBucket \<mapsto> Map.empty, sizeBucket \<mapsto> [size_key \<mapsto> itob 0]]\<rparr>"
      Map.empty "[3]" "[[\<lparr>Idx = 0, Timestamp = 5, LeafID = [1]\<rparr>], [\<lparr>Idx = 1, Timestamp = 6, LeafID = [2]\<rparr>]]"
      "fst (Add_calls \<lparr>db = [dedupBucket \<mapsto> Map.empty, sizeBucket \<mapsto> [size_key \<mapsto> itob 0]]\<rparr>
       [[\<lparr>Idx = 0, Timestamp = 5, LeafID = [1]\<rparr>], [\<lparr>Idx = 1, Timestamp = 6, LeafID = [2]\<rparr>]])"
      "snd (Add_calls \<lparr>db = [dedupBucket \<mapsto> Map.empty, sizeBucket \<mapsto> [size_key \<mapsto> itob 0]]\<rparr>
       [[\<lparr>Idx = 0, Timestamp = 5, LeafID = [1]\<rparr>], [\<lparr>Idx = 1, Timestamp = 6, LeafID = [2]\<rparr>]])"]
  by simp

lemma Get_stored:
  "db s dedupBucket = Some dm \<Longrightarrow> dm k = Some (itob i @ itob t) \<Longrightarrow>
   Get s k = Inr (\<lparr>Idx = i, Timestamp = t\<rparr>, True)"
  by (simp add: Get_def View_def Bucket_Get_def btov_itob)

text \<open>
  C10. When the value stored under a record's \<open>LeafID\<close> does not have 16 bytes, on a
  store whose counter is readable, the tie-break test is false whatever the index, \<open>Add\<close>
  of the record returns no error, and the stored value becomes the 16 bytes of the
  record's index and timestamp, which \<open>Get\<close> then returns. (A key that holds a value
  is one BBolt accepts: not empty and at most \<open>MaxKeySize\<close> bytes.)
\<close>

theorem corrupt_entry_overwritten:
  assumes "db s dedupBucket = Some dm" and "dm (LeafID ldi) = Some old" and "length old \<noteq> 16"
    and "db s sizeBucket = Some sm" and "sm size_key = Some sizeB" and "8 \<le> length sizeB"
    and "LeafID ldi \<noteq> []" and "length (LeafID ldi) \<le> MaxKeySize"
  shows "keeps_old (dm (LeafID ldi)) (Idx ldi) = Inr False \<and>
    (\<exists>s'. Add s [ldi] = (s', None) \<and>
     db s' dedupBucket =
       Some (dm(LeafID ldi \<mapsto> AppendUint64 [] (Idx ldi) @ AppendUint64 [] (Timestamp ldi))) \<and>
     Get s' (LeafID ldi) = Inr (\<lparr>Idx = Idx ldi, Timestamp = Timestamp ldi\<rparr>, True))"
proof -
  have nw: "\<not> old_wins (dm (LeafID ldi)) (Idx ldi)"
    using assms(2,3) by (simp add: old_wins_def)
  have k: "\<not> MaxKeySize < length (LeafID ldi)"
    using assms(8) by simp
  show ?thesis
    using assms(7) nw k
    by (auto simp: keeps_old_eq Update_def Add_tx_ready [OF assms(1,4,5,6)] Get_stored
        itob_def [symmetric])
qed

theorem corrupt_entry_overwritten_witness:
  "keeps_old (Some (replicate 17 0)) 5 = Inr False \<and>
   snd (Add \<lparr>db = [dedupBucket \<mapsto> [[1] \<mapsto> replicate 17 0], sizeBucket \<mapsto> [size_key \<mapsto> itob 3]]\<rparr>
      [\<lparr>Idx = 5, Timestamp = 9, LeafID = [1]\<rparr>]) = None \<and>
   Get (fst (Add \<lparr>db = [dedupBucket \<mapsto> [[1] \<mapsto> replicate 17 0], sizeBucket \<mapsto> [size_key \<mapsto> itob 3]]\<rparr>
      [\<lparr>Idx = 5, Timestamp = 9, LeafID = [1]\<rparr>])) [1] = Inr (\<lparr>Idx = 5, Timestamp = 9\<rparr>, True)"
  using corrupt_entry_overwritten [of
      "\<lparr>db = [dedupBucket \<mapsto> [[1] \<mapsto> replicate 17 0], sizeBucket \<mapsto> [size_key \<mapsto> itob 3]]\<rparr>"
      "[[1] \<mapsto> replicate 17 0]" "\<lparr>Idx = 5, Timestamp = 9, LeafID = [1]\<rparr>" "replicate 17 0"
      "[size_key \<mapsto> itob 3]" "itob 3"]
  by (auto simp: length_itob MaxKeySize_def)

section \<open>The size counter\<close>

lemma LogSize_ready:
  "db s sizeBucket = Some sm \<Longrightarrow> sm size_key = Some sizeB \<Longrightarrow> 8 \<le> length sizeB \<Longrightarrow>
   LogSize s = Inr (Uint64_of sizeB)"
  by (simp add: LogSize_def View_def Bucket_Get_def btoi_copy8) (simp add: btoi_def Uint64_def)

lemma LogSize_itob:
  "db s sizeBucket = Some sm \<Longrightarrow> sm size_key = Some (itob n) \<Longrightarrow> LogSize s = Inr n"
  by (simp add: LogSize_def View_def Bucket_Get_def)

lemma Uint64_of_itob: "Uint64_of (itob i @ r) = i"
  by (simp add: itob_def Uint64_of_AppendUint64)

lemma old_wins_itob: "old_wins (Some (itob i @ itob t)) j = (i \<le> j)"
  by (simp add: old_wins_def length_itob Uint64_of_itob)

text \<open>
  C3. For a record whose transaction commits, with \<open>sz\<close> the counter read in that
  transaction (which is what \<open>LogSize\<close> returned before): when the record's index
  equals \<open>sz\<close> the stored counter becomes \<open>sz + 1\<close> (the \<open>uint64\<close> sum, as the source
  computes it), and otherwise the size bucket is unchanged. This holds whatever the
  dedup bucket holds; in particular a record that loses the tie-break leaves the dedup
  bucket as it was and still moves the counter when its index equals it.
\<close>

theorem Add_advances_size:
  assumes "Add s [ldi] = (s', None)"
  shows "\<exists>sm sizeB sz. db s sizeBucket = Some sm \<and> sm size_key = Some sizeB \<and>
      btoi sizeB = Inr sz \<and> LogSize s = Inr sz \<and>
      db s' sizeBucket = Some (if Idx ldi = sz then sm(size_key \<mapsto> itob (sz + 1)) else sm) \<and>
      LogSize s' = Inr (if Idx ldi = sz then sz + 1 else sz) \<and>
      (db s dedupBucket = Some dm \<and> keeps_old (dm (LeafID ldi)) (Idx ldi) = Inr True \<longrightarrow>
         db s' dedupBucket = Some dm)"
proof -
  from assms obtain d' where tx: "Add_tx ldi (db s) = Inr d'" and s': "s' = s\<lparr>db := d'\<rparr>"
    by (auto simp: Update_def split: sum.splits)
  from Add_tx_Inr_ready [OF tx] obtain dm0 sm sizeB where
    r: "db s dedupBucket = Some dm0" "db s sizeBucket = Some sm" "sm size_key = Some sizeB"
      "8 \<le> length sizeB"
    by blast
  have sz: "btoi sizeB = Inr (Uint64_of sizeB)"
    using r(4) by (simp add: btoi_def Uint64_def)
  show ?thesis
    using tx r sz LogSize_ready [OF r(2,3,4)] unfolding Add_tx_ready [OF r] s'
    by (auto simp: keeps_old_eq LogSize_itob [where sm = "sm(size_key \<mapsto> itob (Uint64_of sizeB + 1))"]
        LogSize_ready [where sm = sm and sizeB = sizeB] split: if_splits)
qed

theorem Add_advances_size_witness:
  "Add \<lparr>db = [dedupBucket \<mapsto> [[7] \<mapsto> itob 0 @ itob 5], sizeBucket \<mapsto> [size_key \<mapsto> itob 1]]\<rparr>
      [\<lparr>Idx = 1, Timestamp = 9, LeafID = [7]\<rparr>] =
     (\<lparr>db = [dedupBucket \<mapsto> [[7] \<mapsto> itob 0 @ itob 5], sizeBucket \<mapsto> [size_key \<mapsto> itob 2]]\<rparr>, None) \<and>
   keeps_old (Some (itob 0 @ itob 5)) 1 = Inr True \<and>
   LogSize \<lparr>db = [dedupBucket \<mapsto> [[7] \<mapsto> itob 0 @ itob 5], sizeBucket \<mapsto> [size_key \<mapsto> itob 1]]\<rparr> = Inr 1 \<and>
   LogSize \<lparr>db = [dedupBucket \<mapsto> [[7] \<mapsto> itob 0 @ itob 5], sizeBucket \<mapsto> [size_key \<mapsto> itob 2]]\<rparr> = Inr 2"
proof -
  let ?s = "\<lparr>db = [dedupBucket \<mapsto> [[7] \<mapsto> itob 0 @ itob 5], sizeBucket \<mapsto> [size_key \<mapsto> itob 1]]\<rparr>"
  let ?s' = "\<lparr>db = [dedupBucket \<mapsto> [[7] \<mapsto> itob 0 @ itob 5], sizeBucket \<mapsto> [size_key \<mapsto> itob 2]]\<rparr>"
  let ?r = "\<lparr>Idx = 1, Timestamp = 9, LeafID = [7]\<rparr>"
  have k: "keeps_old (Some (itob 0 @ itob 5)) 1 = Inr True"
    by (simp add: keeps_old_eq old_wins_itob)
  have a: "Add ?s [?r] = (?s', None)"
    by (simp add: Update_def Add_tx_def Bucket_Get_def Bucket_Put_def btoi_itob vtob_eq k)
  from Add_advances_size [OF a, of "[[7] \<mapsto> itob 0 @ itob 5]"]
  have "LogSize ?s = Inr 1 \<and> LogSize ?s' = Inr 2"
    by (auto simp: btoi_itob)
  with a k show ?thesis by blast
qed

lemma Update_Add_tx_LogSize:
  assumes "LogSize s = Inr n" and "Update (db s) (Add_tx ldi) = (d', e)"
  shows "LogSize (s\<lparr>db := d'\<rparr>) = Inr n \<or>
    (LogSize (s\<lparr>db := d'\<rparr>) = Inr (n + 1) \<and> e = None \<and> Idx ldi = n)"
proof (cases "Add_tx ldi (db s)")
  case (Inl err)
  with assms show ?thesis by (auto simp: Update_def)
next
  case (Inr d1)
  from Add_tx_Inr_ready [OF Inr] obtain dm sm sizeB where
    r: "db s dedupBucket = Some dm" "db s sizeBucket = Some sm" "sm size_key = Some sizeB"
      "8 \<le> length sizeB"
    by blast
  have n: "Uint64_of sizeB = n"
    using LogSize_ready [OF r(2,3,4)] assms(1) by simp
  have d': "d' = d1" "e = None"
    using assms(2) Inr by (simp_all add: Update_def)
  show ?thesis
    using Inr assms(1) unfolding Add_tx_ready [OF r] d' n
    by (auto split: if_splits
        simp: LogSize_itob [where sm = "sm(size_key \<mapsto> itob (n + 1))"] LogSize_def View_def Bucket_Get_def r)
qed

text \<open>
  C4, amended. As long as the counter cannot reach \<open>2 ^ 64\<close> (its value plus the number
  of records is below \<open>2 ^ 64\<close>), a call of \<open>Add\<close>, successful or not, never decreases
  the counter and raises it by at most the number of records: a single record leaves it
  unchanged or raises it by exactly one. \<open>Get\<close> and \<open>LogSize\<close> do not write.
\<close>

theorem size_counter_monotone:
  assumes "LogSize s = Inr n" and "unat n + length ldis < 2 ^ 64" and "Add s ldis = (s', e)"
  shows "\<exists>n'. LogSize s' = Inr n' \<and> unat n \<le> unat n' \<and> unat n' \<le> unat n + length ldis"
  using assms
proof (induction ldis arbitrary: s n)
  case Nil
  then show ?case by simp
next
  case (Cons ldi ldis)
  obtain d1 e1 where u: "Update (db s) (Add_tx ldi) = (d1, e1)"
    by (cases "Update (db s) (Add_tx ldi)")
  from Update_Add_tx_LogSize [OF Cons.prems(1) u]
  consider (same) "LogSize (s\<lparr>db := d1\<rparr>) = Inr n"
    | (adv) "LogSize (s\<lparr>db := d1\<rparr>) = Inr (n + 1)" "e1 = None"
    by blast
  then show ?case
  proof cases
    case same
    show ?thesis
    proof (cases e1)
      case None
      with Cons.prems(3) u have "Add (s\<lparr>db := d1\<rparr>) ldis = (s', e)" by simp
      from Cons.IH [OF same _ this] Cons.prems(2) show ?thesis by auto
    next
      case (Some err)
      with Cons.prems(3) u same show ?thesis by auto
    qed
  next
    case adv
    have "unat n + unat (1 :: uint64) < 2 ^ LENGTH(64)"
      using Cons.prems(2) by simp
    then have un: "unat (n + 1) = unat n + 1"
      by (simp add: unat_add_lem [THEN iffD1])
    from Cons.prems(3) u adv(2) have "Add (s\<lparr>db := d1\<rparr>) ldis = (s', e)" by simp
    from Cons.IH [OF adv(1) _ this] Cons.prems(2) un show ?thesis by auto
  qed
qed

lemma store_of_db [simp]:
  "db (store_of entries n) dedupBucket = Some (map_of entries)"
  "db (store_of entries n) sizeBucket = Some [size_key \<mapsto> itob n]"
  by (simp_all add: store_of_def)

lemma LogSize_store_of [simp]: "LogSize (store_of entries n) = Inr n"
  by (simp add: LogSize_itob [where sm = "[size_key \<mapsto> itob n]"])

lemma Uint64_of_itob0 [simp]: "Uint64_of (itob i) = i"
  using Uint64_of_itob [of i "[]"] by simp

lemma Add_store_of:
  assumes "LeafID ldi \<noteq> []" and "length (LeafID ldi) \<le> MaxKeySize"
  shows "Add (store_of entries n) (ldi # ldis) =
     Add (store_of (if old_wins (map_of entries (LeafID ldi)) (Idx ldi) then entries
                    else (LeafID ldi, itob (Idx ldi) @ itob (Timestamp ldi)) # entries)
                   (if n = Idx ldi then n + 1 else n)) ldis"
proof -
  have k: "\<not> MaxKeySize < length (LeafID ldi)" using assms(2) by simp
  have "Add_tx ldi (db (store_of entries n)) =
     Inr (db (store_of (if old_wins (map_of entries (LeafID ldi)) (Idx ldi) then entries
                    else (LeafID ldi, itob (Idx ldi) @ itob (Timestamp ldi)) # entries)
                   (if n = Idx ldi then n + 1 else n)))"
    using assms(1) k
    by (subst Add_tx_ready [where dm = "map_of entries" and sm = "[size_key \<mapsto> itob n]" and sizeB = "itob n"])
      (auto simp: length_itob store_of_def)
  then show ?thesis
    by (simp add: Update_def) (simp add: store_of_def)
qed

text \<open>
  C4 as stated fails at the largest counter: on a store whose counter is \<open>2 ^ 64 - 1\<close>,
  the successful \<open>Add\<close> of a record with that index stores \<open>size + 1 = 0\<close>, so the
  counter decreases.
\<close>

theorem size_counter_wraps_counterexample:
  "LogSize (store_of [] (- 1)) = Inr (- 1) \<and>
   Add (store_of [] (- 1)) [\<lparr>Idx = - 1, Timestamp = 0, LeafID = [1]\<rparr>] =
     (store_of [([1], itob (- 1) @ itob 0)] 0, None) \<and>
   LogSize (store_of [([1], itob (- 1) @ itob 0)] 0) = Inr 0 \<and>
   unat (- 1 :: uint64) = 2 ^ 64 - 1 \<and> unat (0 :: uint64) < unat (- 1 :: uint64)"
  by (simp add: Add_store_of MaxKeySize_def old_wins_def unsigned_minus_1_eq_mask mask_eq_exp_minus_1 del: Add.simps(2))

theorem size_counter_monotone_witness:
  "LogSize (store_of [] 1) = Inr 1 \<and>
   unat (1 :: uint64) + length [\<lparr>Idx = 1, Timestamp = 0, LeafID = [1]\<rparr>, \<lparr>Idx = 5, Timestamp = 0, LeafID = [2]\<rparr>] < 2 ^ 64 \<and>
   Add (store_of [] 1) [\<lparr>Idx = 1, Timestamp = 0, LeafID = [1]\<rparr>, \<lparr>Idx = 5, Timestamp = 0, LeafID = [2]\<rparr>] =
     (store_of [([2], itob 5 @ itob 0), ([1], itob 1 @ itob 0)] 2, None) \<and>
   (\<exists>n'. LogSize (store_of [([2], itob 5 @ itob 0), ([1], itob 1 @ itob 0)] 2) = Inr n' \<and>
      unat (1 :: uint64) \<le> unat n' \<and>
      unat n' \<le> unat (1 :: uint64) + length [\<lparr>Idx = 1, Timestamp = 0, LeafID = [1]\<rparr>, \<lparr>Idx = 5, Timestamp = 0, LeafID = [2]\<rparr>])"
proof -
  have a: "Add (store_of [] 1) [\<lparr>Idx = 1, Timestamp = 0, LeafID = [1]\<rparr>, \<lparr>Idx = 5, Timestamp = 0, LeafID = [2]\<rparr>] =
     (store_of [([2], itob 5 @ itob 0), ([1], itob 1 @ itob 0)] 2, None)"
    by (simp add: Add_store_of MaxKeySize_def old_wins_def del: Add.simps(2))
  have l: "LogSize (store_of [] 1) = Inr 1" by simp
  have b: "unat (1 :: uint64) + length [\<lparr>Idx = 1, Timestamp = 0, LeafID = [1]\<rparr>, \<lparr>Idx = 5, Timestamp = 0, LeafID = [2]\<rparr>] < 2 ^ 64"
    by simp
  from size_counter_monotone [OF l b a] a l b show ?thesis by blast
qed

lemma NewStorage_fresh:
  assumes "d dedupBucket = None" and "d sizeBucket = None"
  shows "NewStorage (Inr d) =
    Inr \<lparr>db = d(dedupBucket \<mapsto> Map.empty, sizeBucket \<mapsto> [size_key \<mapsto> itob 0])\<rparr>"
  using assms
  by (simp add: NewStorage_def Update_def NewStorage_tx_def CreateBucket_def Bucket_Put_def)

lemma Add_one_ready:
  assumes "db s dedupBucket = Some dm" and "db s sizeBucket = Some sm"
    and "sm size_key = Some (itob n)"
    and "LeafID ldi \<noteq> []" and "length (LeafID ldi) \<le> MaxKeySize"
  shows "\<exists>s' dm'. Add s [ldi] = (s', None) \<and> db s' dedupBucket = Some dm' \<and>
     db s' sizeBucket = Some (sm(size_key \<mapsto> itob (if n = Idx ldi then n + 1 else n)))"
proof -
  have k: "\<not> MaxKeySize < length (LeafID ldi)" using assms(5) by simp
  have l: "8 \<le> length (itob n)" by (simp add: length_itob)
  have same: "sm(size_key \<mapsto> itob n) = sm"
    using assms(3) by (simp add: map_upd_triv)
  show ?thesis
    using assms(1,2,4) k same
    by (auto simp: Update_def Add_tx_ready [OF assms(1,2,3) l])
qed

text \<open>
  C2, amended. On a store just created by \<open>NewStorage\<close>, after \<open>Add\<close> with index 0 and
  then \<open>Add\<close> with index 2, under any keys the bucket accepts and any timestamps,
  \<open>LogSize\<close> returns 1; after a further \<open>Add\<close> with index 1 it returns 2: that record
  moves the counter by one, and index 2, added before, is not counted.
\<close>

theorem LogSize_after_gap_then_fill:
  assumes "d dedupBucket = None" and "d sizeBucket = None"
    and "k0 \<noteq> []" and "length k0 \<le> MaxKeySize"
    and "k2 \<noteq> []" and "length k2 \<le> MaxKeySize"
    and "k1 \<noteq> []" and "length k1 \<le> MaxKeySize"
  shows "\<exists>s0 s2 s3. NewStorage (Inr d) = Inr s0 \<and> LogSize s0 = Inr 0 \<and>
     Add_calls s0 [[\<lparr>Idx = 0, Timestamp = t0, LeafID = k0\<rparr>], [\<lparr>Idx = 2, Timestamp = t2, LeafID = k2\<rparr>]] =
       (s2, None) \<and>
     LogSize s2 = Inr 1 \<and>
     Add s2 [\<lparr>Idx = 1, Timestamp = t1, LeafID = k1\<rparr>] = (s3, None) \<and>
     LogSize s3 = Inr 2"
proof -
  let ?s0 = "\<lparr>db = d(dedupBucket \<mapsto> Map.empty, sizeBucket \<mapsto> [size_key \<mapsto> itob 0])\<rparr>"
  have new: "NewStorage (Inr d) = Inr ?s0"
    by (rule NewStorage_fresh [OF assms(1,2)])
  have l0: "LogSize ?s0 = Inr 0"
    by (simp add: LogSize_itob [where sm = "[size_key \<mapsto> itob 0]"])
  from Add_one_ready [of ?s0 Map.empty "[size_key \<mapsto> itob 0]" 0 "\<lparr>Idx = 0, Timestamp = t0, LeafID = k0\<rparr>"]
    assms(3,4)
  obtain s1 dm1 where s1: "Add ?s0 [\<lparr>Idx = 0, Timestamp = t0, LeafID = k0\<rparr>] = (s1, None)"
    "db s1 dedupBucket = Some dm1" "db s1 sizeBucket = Some [size_key \<mapsto> itob 1]"
    by auto
  from Add_one_ready [OF s1(2,3), of 1 "\<lparr>Idx = 2, Timestamp = t2, LeafID = k2\<rparr>"] assms(5,6)
  obtain s2 dm2 where s2: "Add s1 [\<lparr>Idx = 2, Timestamp = t2, LeafID = k2\<rparr>] = (s2, None)"
    "db s2 dedupBucket = Some dm2" "db s2 sizeBucket = Some [size_key \<mapsto> itob 1]"
    by auto
  from Add_one_ready [OF s2(2,3), of 1 "\<lparr>Idx = 1, Timestamp = t1, LeafID = k1\<rparr>"] assms(7,8)
  obtain s3 dm3 where s3: "Add s2 [\<lparr>Idx = 1, Timestamp = t1, LeafID = k1\<rparr>] = (s3, None)"
    "db s3 dedupBucket = Some dm3" "db s3 sizeBucket = Some [size_key \<mapsto> itob 2]"
    by auto
  have calls: "Add_calls ?s0 [[\<lparr>Idx = 0, Timestamp = t0, LeafID = k0\<rparr>], [\<lparr>Idx = 2, Timestamp = t2, LeafID = k2\<rparr>]] =
       (s2, None)"
    using s1(1) s2(1) by (simp del: Add.simps)
  have l2: "LogSize s2 = Inr 1"
    by (rule LogSize_itob [OF s2(3)]) simp
  have l3: "LogSize s3 = Inr 2"
    by (rule LogSize_itob [OF s3(3)]) simp
  from new l0 calls l2 s3(1) l3 show ?thesis by blast
qed

theorem LogSize_after_gap_then_fill_witness:
  "[1] \<noteq> ([] :: bytes) \<and> length ([1] :: bytes) \<le> MaxKeySize \<and>
   (\<exists>s0 s2 s3. NewStorage (Inr Map.empty) = Inr s0 \<and> LogSize s0 = Inr 0 \<and>
     Add_calls s0 [[\<lparr>Idx = 0, Timestamp = 10, LeafID = [1]\<rparr>], [\<lparr>Idx = 2, Timestamp = 12, LeafID = [3]\<rparr>]] =
       (s2, None) \<and>
     LogSize s2 = Inr 1 \<and>
     Add s2 [\<lparr>Idx = 1, Timestamp = 11, LeafID = [2]\<rparr>] = (s3, None) \<and>
     LogSize s3 = Inr 2)"
  using LogSize_after_gap_then_fill [of Map.empty "[1]" "[3]" "[2]" 10 12 11]
  by (simp add: MaxKeySize_def del: Add.simps Add_calls.simps)

text \<open>
  C2 as stated fails: after the indices 0, 2 and then 1 the counter is 2, not 3.
\<close>

theorem LogSize_after_gap_then_fill_counterexample:
  "NewStorage (Inr (map_of [])) = Inr (store_of [] 0) \<and>
   Add_calls (store_of [] 0)
     [[\<lparr>Idx = 0, Timestamp = 10, LeafID = [1]\<rparr>], [\<lparr>Idx = 2, Timestamp = 12, LeafID = [3]\<rparr>]] =
     (store_of [([3], itob 2 @ itob 12), ([1], itob 0 @ itob 10)] 1, None) \<and>
   LogSize (store_of [([3], itob 2 @ itob 12), ([1], itob 0 @ itob 10)] 1) = Inr 1 \<and>
   Add (store_of [([3], itob 2 @ itob 12), ([1], itob 0 @ itob 10)] 1)
     [\<lparr>Idx = 1, Timestamp = 11, LeafID = [2]\<rparr>] =
     (store_of [([2], itob 1 @ itob 11), ([3], itob 2 @ itob 12), ([1], itob 0 @ itob 10)] 2, None) \<and>
   LogSize (store_of [([2], itob 1 @ itob 11), ([3], itob 2 @ itob 12), ([1], itob 0 @ itob 10)] 2) \<noteq> Inr 3"
  by (simp add: NewStorage_fresh Add_store_of MaxKeySize_def old_wins_def del: Add.simps(2))
    (simp add: store_of_def)

section \<open>The smallest index wins\<close>

lemma Add_tx_dedup_step:
  assumes "Add_tx ldi d = Inr d'" and "d dedupBucket = Some dm"
  shows "\<exists>dm'. d' dedupBucket = Some dm' \<and>
     dm' k = (if LeafID ldi = k \<and> \<not> old_wins (dm k) (Idx ldi)
              then Some (itob (Idx ldi) @ itob (Timestamp ldi)) else dm k)"
proof -
  from Add_tx_Inr_ready [OF assms(1)] assms(2) obtain sm sizeB where
    r: "d sizeBucket = Some sm" "sm size_key = Some sizeB" "8 \<le> length sizeB"
    by auto
  show ?thesis
    using assms unfolding Add_tx_ready [OF assms(2) r]
    by (auto split: if_splits)
qed

lemma Add_Cons_None:
  assumes "Add s (ldi # ldis) = (s', None)"
  shows "\<exists>d1. Add_tx ldi (db s) = Inr d1 \<and> Add (s\<lparr>db := d1\<rparr>) ldis = (s', None)"
  using assms by (auto simp: Update_def split: sum.splits)

lemma Add_track_present:
  assumes "Add s ls = (s', None)" and "db s dedupBucket = Some dm" and "dm k = Some (enc p)"
  shows "\<exists>dm'. db s' dedupBucket = Some dm' \<and>
     dm' k = Some (enc (best p (filter (\<lambda>l. LeafID l = k) ls)))"
  using assms
proof (induction ls arbitrary: s dm p)
  case Nil
  then show ?case by simp
next
  case (Cons ldi ls)
  from Add_Cons_None [OF Cons.prems(1)] obtain d1 where
    d1: "Add_tx ldi (db s) = Inr d1" "Add (s\<lparr>db := d1\<rparr>) ls = (s', None)"
    by blast
  from Add_tx_dedup_step [OF d1(1) Cons.prems(2), of k] obtain dm1 where
    dm1: "d1 dedupBucket = Some dm1"
      "dm1 k = (if LeafID ldi = k \<and> \<not> old_wins (dm k) (Idx ldi)
              then Some (itob (Idx ldi) @ itob (Timestamp ldi)) else dm k)"
    by blast
  have w: "old_wins (dm k) (Idx ldi) = (fst p \<le> Idx ldi)"
    using Cons.prems(3) by (simp add: enc_def old_wins_itob)
  have "dm1 k = Some (enc (if LeafID ldi = k then (if fst p \<le> Idx ldi then p else (Idx ldi, Timestamp ldi)) else p))"
    using dm1(2) w Cons.prems(3) by (simp add: enc_def)
  moreover have "db (s\<lparr>db := d1\<rparr>) dedupBucket = Some dm1"
    using dm1(1) by simp
  ultimately show ?case
    using Cons.IH [OF d1(2)] by simp
qed

lemma Add_track_absent:
  assumes "Add s ls = (s', None)" and "db s dedupBucket = Some dm" and "dm k = None"
  shows "\<exists>dm'. db s' dedupBucket = Some dm' \<and>
     dm' k = (case filter (\<lambda>l. LeafID l = k) ls of [] \<Rightarrow> None
              | r # rs \<Rightarrow> Some (enc (best (Idx r, Timestamp r) rs)))"
  using assms
proof (induction ls arbitrary: s dm)
  case Nil
  then show ?case by simp
next
  case (Cons ldi ls)
  from Add_Cons_None [OF Cons.prems(1)] obtain d1 where
    d1: "Add_tx ldi (db s) = Inr d1" "Add (s\<lparr>db := d1\<rparr>) ls = (s', None)"
    by blast
  from Add_tx_dedup_step [OF d1(1) Cons.prems(2), of k] obtain dm1 where
    dm1: "d1 dedupBucket = Some dm1"
      "dm1 k = (if LeafID ldi = k \<and> \<not> old_wins (dm k) (Idx ldi)
              then Some (itob (Idx ldi) @ itob (Timestamp ldi)) else dm k)"
    by blast
  have db1: "db (s\<lparr>db := d1\<rparr>) dedupBucket = Some dm1"
    using dm1(1) by simp
  show ?case
  proof (cases "LeafID ldi = k")
    case True
    then have "dm1 k = Some (enc (Idx ldi, Timestamp ldi))"
      using dm1(2) Cons.prems(3) by (simp add: old_wins_def enc_def)
    from Add_track_present [OF d1(2) db1 this] True show ?thesis by simp
  next
    case False
    then have "dm1 k = None" using dm1(2) Cons.prems(3) by simp
    from Cons.IH [OF d1(2) db1 this] False show ?thesis by simp
  qed
qed

lemma Min_Idx_Cons_le:
  assumes "Idx r \<le> Idx l"
  shows "Min (Idx ` set (r # l # ls)) = Min (Idx ` set (r # ls))"
proof (rule Min_eqI)
  have le: "Min (Idx ` set (r # ls)) \<le> Idx r" by (rule Min_le) simp_all
  show "finite (Idx ` set (r # l # ls))" by simp
  show "Min (Idx ` set (r # ls)) \<in> Idx ` set (r # l # ls)"
    using Min_in [of "Idx ` set (r # ls)"] by auto
  fix y assume "y \<in> Idx ` set (r # l # ls)"
  then have "y = Idx l \<or> y \<in> Idx ` set (r # ls)" by auto
  then show "Min (Idx ` set (r # ls)) \<le> y"
  proof
    assume y: "y = Idx l"
    from le assms have "Min (Idx ` set (r # ls)) \<le> Idx l" by (rule order_trans)
    with y show ?thesis by simp
  next
    assume "y \<in> Idx ` set (r # ls)"
    then show ?thesis by (intro Min_le) simp_all
  qed
qed

lemma Min_Idx_Cons_gt:
  assumes "Idx l \<le> Idx r"
  shows "Min (Idx ` set (r # l # ls)) = Min (Idx ` set (l # ls))"
proof (rule Min_eqI)
  have le: "Min (Idx ` set (l # ls)) \<le> Idx l" by (rule Min_le) simp_all
  show "finite (Idx ` set (r # l # ls))" by simp
  show "Min (Idx ` set (l # ls)) \<in> Idx ` set (r # l # ls)"
    using Min_in [of "Idx ` set (l # ls)"] by auto
  fix y assume "y \<in> Idx ` set (r # l # ls)"
  then have "y = Idx r \<or> y \<in> Idx ` set (l # ls)" by auto
  then show "Min (Idx ` set (l # ls)) \<le> y"
  proof
    assume y: "y = Idx r"
    from le assms have "Min (Idx ` set (l # ls)) \<le> Idx r" by (rule order_trans)
    with y show ?thesis by simp
  next
    assume "y \<in> Idx ` set (l # ls)"
    then show ?thesis by (intro Min_le) simp_all
  qed
qed

lemma best_is_first_min:
  "\<exists>r'. find (\<lambda>l. Idx l = Min (Idx ` set (r # rs))) (r # rs) = Some r' \<and>
     best (Idx r, Timestamp r) rs = (Min (Idx ` set (r # rs)), Timestamp r')"
proof (induction rs arbitrary: r)
  case Nil
  then show ?case by simp
next
  case (Cons l ls)
  show ?case
  proof (cases "Idx r \<le> Idx l")
    case True
    define m where "m = Min (Idx ` set (r # ls))"
    from Cons.IH [of r] obtain r' where
      ih: "find (\<lambda>x. Idx x = m) (r # ls) = Some r'"
        "best (Idx r, Timestamp r) ls = (m, Timestamp r')"
      unfolding m_def by blast
    have le: "m \<le> Idx r" unfolding m_def by (rule Min_le) simp_all
    have m: "Min (Idx ` set (r # l # ls)) = m"
      unfolding m_def by (rule Min_Idx_Cons_le [OF True])
    have "find (\<lambda>x. Idx x = m) (r # l # ls) = Some r'"
      using ih(1) le True by (auto split: if_splits)
    with ih(2) True show ?thesis unfolding m by simp
  next
    case False
    define m where "m = Min (Idx ` set (l # ls))"
    from Cons.IH [of l] obtain r' where
      ih: "find (\<lambda>x. Idx x = m) (l # ls) = Some r'"
        "best (Idx l, Timestamp l) ls = (m, Timestamp r')"
      unfolding m_def by blast
    have le: "m \<le> Idx l" unfolding m_def by (rule Min_le) simp_all
    from False have lr: "Idx l \<le> Idx r" by simp
    have m: "Min (Idx ` set (r # l # ls)) = m"
      unfolding m_def by (rule Min_Idx_Cons_gt [OF lr])
    have "Idx r \<noteq> m"
      using le False by auto
    then have "find (\<lambda>x. Idx x = m) (r # l # ls) = Some r'"
      using ih(1) by simp
    with ih(2) False show ?thesis unfolding m by simp
  qed
qed

text \<open>
  C1. Take any sequence of calls of \<open>Add\<close> that all succeed (as they do under the
  conditions of \<open>Add_succeeds\<close>), on a store that holds no entry for the key \<open>k\<close>,
  and let \<open>rs\<close> be the records of these calls that carry \<open>k\<close>, in order (records of
  other keys may come between them). If there is one, \<open>Get\<close> finds \<open>k\<close> afterwards,
  with the least index of \<open>rs\<close> and the timestamp of the first record of \<open>rs\<close> that has
  this index: a later record with an equal or greater index changes nothing.
\<close>

theorem Add_keeps_smallest_index:
  assumes "Add_calls s calls = (s', None)"
    and "db s dedupBucket = Some dm" and "dm k = None"
    and "filter (\<lambda>l. LeafID l = k) (concat calls) = rs" and "rs \<noteq> []"
  shows "\<exists>r. find (\<lambda>l. Idx l = Min (Idx ` set rs)) rs = Some r \<and>
     Get s' k = Inr (\<lparr>Idx = Min (Idx ` set rs), Timestamp = Timestamp r\<rparr>, True)"
proof -
  from assms(5) obtain r0 rest where rs: "rs = r0 # rest" by (cases rs) auto
  from assms(1) have a: "Add s (concat calls) = (s', None)" by (simp add: Add_calls_concat)
  from Add_track_absent [OF a assms(2,3)] assms(4) rs obtain dm' where
    dm': "db s' dedupBucket = Some dm'" "dm' k = Some (enc (best (Idx r0, Timestamp r0) rest))"
    by auto
  from best_is_first_min [of r0 rest] rs obtain r where
    r: "find (\<lambda>l. Idx l = Min (Idx ` set rs)) rs = Some r"
      "best (Idx r0, Timestamp r0) rest = (Min (Idx ` set rs), Timestamp r)"
    by auto
  have "Get s' k = Inr (\<lparr>Idx = Min (Idx ` set rs), Timestamp = Timestamp r\<rparr>, True)"
    using dm' r(2) by (simp add: Get_stored enc_def)
  with r(1) show ?thesis by blast
qed

theorem Add_keeps_smallest_index_witness:
  "Add_calls (store_of [] 0)
     [[\<lparr>Idx = 5, Timestamp = 50, LeafID = [1]\<rparr>],
      [\<lparr>Idx = 3, Timestamp = 30, LeafID = [1]\<rparr>, \<lparr>Idx = 0, Timestamp = 90, LeafID = [2]\<rparr>],
      [\<lparr>Idx = 3, Timestamp = 31, LeafID = [1]\<rparr>],
      [\<lparr>Idx = 7, Timestamp = 70, LeafID = [1]\<rparr>]] =
     (store_of [([2], itob 0 @ itob 90), ([1], itob 3 @ itob 30), ([1], itob 5 @ itob 50)] 1, None) \<and>
   Get (store_of [([2], itob 0 @ itob 90), ([1], itob 3 @ itob 30), ([1], itob 5 @ itob 50)] 1) [1] =
     Inr (\<lparr>Idx = 3, Timestamp = 30\<rparr>, True)"
proof -
  let ?calls = "[[\<lparr>Idx = 5, Timestamp = 50, LeafID = [1]\<rparr>],
      [\<lparr>Idx = 3, Timestamp = 30, LeafID = [1]\<rparr>, \<lparr>Idx = 0, Timestamp = 90, LeafID = [2]\<rparr>],
      [\<lparr>Idx = 3, Timestamp = 31, LeafID = [1]\<rparr>],
      [\<lparr>Idx = 7, Timestamp = 70, LeafID = [1]\<rparr>]] :: LeafDedupInfo list list"
  let ?rs = "[\<lparr>Idx = 5, Timestamp = 50, LeafID = [1]\<rparr>, \<lparr>Idx = 3, Timestamp = 30, LeafID = [1]\<rparr>,
      \<lparr>Idx = 3, Timestamp = 31, LeafID = [1]\<rparr>, \<lparr>Idx = 7, Timestamp = 70, LeafID = [1]\<rparr>] :: LeafDedupInfo list"
  let ?s' = "store_of [([2], itob 0 @ itob 90), ([1], itob 3 @ itob 30), ([1], itob 5 @ itob 50)] 1"
  have a: "Add_calls (store_of [] 0) ?calls = (?s', None)"
    by (simp add: Add_store_of MaxKeySize_def old_wins_itob del: Add.simps(2)) (simp add: old_wins_def)
  have d: "db (store_of [] 0) dedupBucket = Some (map_of [])" by simp
  have n: "map_of [] ([1] :: bytes) = (None :: bytes option)" by simp
  have f: "filter (\<lambda>l. LeafID l = [1]) (concat ?calls) = ?rs" by simp
  have ne: "?rs \<noteq> []" by simp
  have m: "Min (Idx ` set ?rs) = 3" by simp
  from Add_keeps_smallest_index [OF a d n f ne]
  have "Get ?s' [1] = Inr (\<lparr>Idx = 3, Timestamp = 30\<rparr>, True)"
    unfolding m by simp
  with a show ?thesis by blast
qed

end
